theory Spec2Isabelle
  imports Complex_Main "HOL-Library.Multiset"
begin

section \<open>Data model\<close>

text \<open>
  The TypeScript type \<^verbatim>\<open>number\<close> is modelled by \<^typ>\<open>real\<close>: finite values, with the
  rounding of IEEE doubles abstracted away. Loop counters that only ever hold small
  non-negative integers (\<^verbatim>\<open>steps\<close>, list indices) are \<^typ>\<open>nat\<close>.
\<close>

datatype Gender = male | female

text \<open>The \<^verbatim>\<open>Drink\<close> objects held by the drinks context. The field \<^verbatim>\<open>id\<close> is
  named \<open>id_drink\<close> here, since \<open>id\<close> is the identity function of HOL.\<close>

record Drink =
  id_drink :: string
  name :: string
  volumeMl :: real
  abv :: real
  standardDrinks :: real
  timestamp :: real

record DrinkGraphProps =
  drinks :: "Drink list"
  firstHourBurn :: real
  subsequentHourBurn :: real
  weight :: real
  gender :: Gender

text \<open>One element of \<^verbatim>\<open>dataPoints\<close>: \<^verbatim>\<open>{ time, bac, label }\<close>.\<close>

record DataPoint =
  time :: real
  bac :: real
  label :: string

section \<open>The drinks context\<close>

text \<open>
  \<^verbatim>\<open>addDrink\<close> prepends a new drink. The two environment reads of the source are
  parameters: \<open>now\<close> is the value of \<^verbatim>\<open>Date.now()\<close> and \<open>newId\<close> the string
  \<^verbatim>\<open>Date.now().toString() + Math.random().toString()\<close>. The optional argument
  \<^verbatim>\<open>timestamp\<close> is an option; \<^verbatim>\<open>timestamp || Date.now()\<close> falls back to \<open>now\<close>
  when the argument is missing or is the falsy number 0.
\<close>

definition addDrink ::
  "string \<Rightarrow> real \<Rightarrow> string \<Rightarrow> real \<Rightarrow> real \<Rightarrow> real option \<Rightarrow> Drink list \<Rightarrow> Drink list" where
  "addDrink newId now nm vol abv' ts prevDrinks =
     (let std = (vol / 1000) * abv' * 0.789;
          newDrink = \<lparr> id_drink = newId, name = nm, volumeMl = vol, abv = abv',
                       standardDrinks = std,
                       timestamp = (case ts of None \<Rightarrow> now
                                    | Some t \<Rightarrow> if t = 0 then now else t) \<rparr>
      in newDrink # prevDrinks)"

definition removeDrink :: "string \<Rightarrow> Drink list \<Rightarrow> Drink list" where
  "removeDrink i prevDrinks = filter (\<lambda>d. id_drink d \<noteq> i) prevDrinks"

definition updateDrinkTime :: "string \<Rightarrow> real \<Rightarrow> Drink list \<Rightarrow> Drink list" where
  "updateDrinkTime i newTimestamp prevDrinks =
     map (\<lambda>d. if id_drink d = i then d\<lparr>timestamp := newTimestamp\<rparr> else d) prevDrinks"

section \<open>The simulation of \<^verbatim>\<open>DrinkGraph\<close>\<close>

text \<open>\<^verbatim>\<open>[...drinks].sort((a, b) => a.timestamp - b.timestamp)\<close>: a stable sort by
  timestamp of a copy of the list, as \<open>sort_key\<close> is.\<close>

definition sortedDrinks :: "DrinkGraphProps \<Rightarrow> Drink list" where
  "sortedDrinks p = sort_key timestamp (drinks p)"

text \<open>\<^verbatim>\<open>sortedDrinks[0].timestamp\<close>; the source reads it only after the check that
  \<^verbatim>\<open>drinks\<close> is not empty, and so does the model.\<close>

definition startTime :: "DrinkGraphProps \<Rightarrow> real" where
  "startTime p = timestamp (hd (sortedDrinks p))"

definition lastDrinkTime :: "DrinkGraphProps \<Rightarrow> real" where
  "lastDrinkTime p = timestamp (last (sortedDrinks p))"

definition r :: "DrinkGraphProps \<Rightarrow> real" where
  "r p = (if gender p = male then 0.68 else 0.55)"

text \<open>The weight that \<^verbatim>\<open>toBAC\<close> divides by: \<^verbatim>\<open>weight > 0 ? weight : 1\<close>.\<close>

definition w :: "DrinkGraphProps \<Rightarrow> real" where
  "w p = (if weight p > 0 then weight p else 1)"

definition toBAC :: "DrinkGraphProps \<Rightarrow> real \<Rightarrow> real" where
  "toBAC p netSD = netSD / (w p * r p)"

definition stepsInMinutes :: real where
  "stepsInMinutes = 10"

definition stepMs :: real where
  "stepMs = stepsInMinutes * 60 * 1000"

definition stepBurnFirstHour :: "DrinkGraphProps \<Rightarrow> real" where
  "stepBurnFirstHour p = (firstHourBurn p / 60) * stepsInMinutes"

definition stepBurnSubsequent :: "DrinkGraphProps \<Rightarrow> real" where
  "stepBurnSubsequent p = (subsequentHourBurn p / 60) * stepsInMinutes"

definition maxSteps :: nat where
  "maxSteps = (24 * 60) div 5"

text \<open>
  The mutable variables of the simulation. \<open>absorbed\<close> is a history variable that the
  source does not have: it records every execution of
  \<^verbatim>\<open>currentNetSD += d.standardDrinks\<close>, with the place where it happened, and nothing
  reads it.
\<close>

datatype AbsorbedAt = AtStart | InStep nat

record SimState =
  currentNetSD :: real
  currentTime :: real
  timeSinceStart :: real
  steps :: nat
  dataPoints :: "DataPoint list"
  absorbed :: "(AbsorbedAt \<times> Drink) list"

text \<open>\<^verbatim>\<open>ds.forEach(d => currentNetSD += d.standardDrinks)\<close>, left to right.\<close>

fun absorb :: "AbsorbedAt \<Rightarrow> Drink list \<Rightarrow> SimState \<Rightarrow> SimState" where
  "absorb wh [] st = st"
| "absorb wh (d # ds) st =
     absorb wh ds (st\<lparr>currentNetSD := currentNetSD st + standardDrinks d,
                       absorbed := absorbed st @ [(wh, d)]\<rparr>)"

definition initialDrinks :: "DrinkGraphProps \<Rightarrow> Drink list" where
  "initialDrinks p = filter (\<lambda>d. \<bar>timestamp d - startTime p\<bar> < 1000) (sortedDrinks p)"

definition pushPoint :: "(real \<Rightarrow> string) \<Rightarrow> DrinkGraphProps \<Rightarrow> real \<Rightarrow> SimState \<Rightarrow> SimState" where
  "pushPoint fmt p t st =
     st\<lparr>dataPoints := dataPoints st @
          [\<lparr> time = t, bac = toBAC p (currentNetSD st), label = fmt t \<rparr>]\<rparr>"

text \<open>The state when the loop is entered: the drinks of the first second are absorbed
  and the first point is pushed. \<open>fmt\<close> stands for the locale-dependent
  \<^verbatim>\<open>new Date(t).toLocaleTimeString(...)\<close>.\<close>

definition initState :: "(real \<Rightarrow> string) \<Rightarrow> DrinkGraphProps \<Rightarrow> SimState" where
  "initState fmt p =
     pushPoint fmt p (startTime p)
       (absorb AtStart (initialDrinks p)
          \<lparr> currentNetSD = 0, currentTime = startTime p, timeSinceStart = 0, steps = 0,
            dataPoints = [], absorbed = [] \<rparr>)"

definition drinksInInterval :: "DrinkGraphProps \<Rightarrow> real \<Rightarrow> real \<Rightarrow> Drink list" where
  "drinksInInterval p cur nextTime =
     filter (\<lambda>d. timestamp d > cur \<and> timestamp d \<le> nextTime) (sortedDrinks p)"

definition burnAmount :: "DrinkGraphProps \<Rightarrow> SimState \<Rightarrow> real" where
  "burnAmount p st =
     (if timeSinceStart st < 60 * 60 * 1000 then stepBurnFirstHour p else stepBurnSubsequent p)"

definition eliminate :: "DrinkGraphProps \<Rightarrow> SimState \<Rightarrow> SimState" where
  "eliminate p st =
     (if currentNetSD st > 0
      then (let n = currentNetSD st - burnAmount p st
            in st\<lparr>currentNetSD := (if n < 0 then 0 else n)\<rparr>)
      else st)"

text \<open>The loop body up to and including the push of the new point.\<close>

definition stepBody :: "(real \<Rightarrow> string) \<Rightarrow> DrinkGraphProps \<Rightarrow> SimState \<Rightarrow> SimState" where
  "stepBody fmt p st =
     (let nextTime = currentTime st + stepMs
      in pushPoint fmt p nextTime
           (eliminate p
              (absorb (InStep (steps st)) (drinksInInterval p (currentTime st) nextTime) st)))"

text \<open>The \<^verbatim>\<open>break\<close> test, on the state after the push: \<^verbatim>\<open>currentTime\<close> is still the
  time before the step, and \<^verbatim>\<open>currentBAC\<close> is \<^verbatim>\<open>toBAC(currentNetSD)\<close>.\<close>

definition stopNow :: "DrinkGraphProps \<Rightarrow> SimState \<Rightarrow> bool" where
  "stopNow p st \<longleftrightarrow> currentTime st > lastDrinkTime p \<and> toBAC p (currentNetSD st) \<le> 0.001"

definition advance :: "SimState \<Rightarrow> SimState" where
  "advance st = st\<lparr>currentTime := currentTime st + stepMs,
                    timeSinceStart := timeSinceStart st + stepMs,
                    steps := steps st + 1\<rparr>"

function simLoop :: "(real \<Rightarrow> string) \<Rightarrow> DrinkGraphProps \<Rightarrow> SimState \<Rightarrow> SimState" where
  "simLoop fmt p st =
     (if steps st < maxSteps
      then (if stopNow p (stepBody fmt p st) then stepBody fmt p st
            else simLoop fmt p (advance (stepBody fmt p st)))
      else st)"
  by pat_completeness auto
termination
proof (relation "measure (\<lambda>(fmt, p, st). maxSteps - steps st)")
  show "wf (measure (\<lambda>(fmt, p, st). maxSteps - steps st))"
    by simp
next
  fix fmt :: "real \<Rightarrow> string" and p :: DrinkGraphProps and st :: SimState
  assume lt: "steps st < maxSteps"
  have a: "steps (absorb wh ds s) = steps s" for wh ds s
    by (induction ds arbitrary: s) simp_all
  have "steps (stepBody fmt p st) = steps st"
    by (simp add: stepBody_def pushPoint_def eliminate_def Let_def a)
  then show "((fmt, p, advance (stepBody fmt p st)), (fmt, p, st))
      \<in> measure (\<lambda>(fmt, p, st). maxSteps - steps st)"
    using lt by (simp add: advance_def)
qed

declare simLoop.simps [simp del]

definition run :: "(real \<Rightarrow> string) \<Rightarrow> DrinkGraphProps \<Rightarrow> SimState" where
  "run fmt p = simLoop fmt p (initState fmt p)"

text \<open>The value of the \<^verbatim>\<open>points\<close> memo.\<close>

definition points :: "(real \<Rightarrow> string) \<Rightarrow> DrinkGraphProps \<Rightarrow> DataPoint list" where
  "points fmt p = (if length (drinks p) = 0 then [] else dataPoints (run fmt p))"

section \<open>The analytics of \<^verbatim>\<open>soberTimeInfo\<close>\<close>

text \<open>The object returned by \<^verbatim>\<open>soberTimeInfo\<close>: \<^verbatim>\<open>{ status: 'under', peak }\<close> or
  \<^verbatim>\<open>{ status: 'over', peak, time, label, projected? }\<close>. A missing \<^verbatim>\<open>projected\<close> is
  \<open>False\<close>.\<close>

datatype SoberTimeInfo =
    StatusUnder real
  | StatusOver real real string bool

text \<open>\<^verbatim>\<open>for (let i = 1; i < points.length; i++) if (points[i].bac > points[peakIndex].bac) peakIndex = i\<close>\<close>

function peakLoop :: "DataPoint list \<Rightarrow> nat \<Rightarrow> nat \<Rightarrow> nat" where
  "peakLoop ps i peakIndex =
     (if i < length ps
      then peakLoop ps (i + 1) (if bac (ps ! i) > bac (ps ! peakIndex) then i else peakIndex)
      else peakIndex)"
  by pat_completeness auto
termination
  by (relation "measure (\<lambda>(ps, i, k). length ps - i)") auto

declare peakLoop.simps [simp del]

text \<open>The second loop; \<open>None\<close> when it falls through.\<close>

function crossLoop :: "DataPoint list \<Rightarrow> nat \<Rightarrow> nat option" where
  "crossLoop ps i =
     (if i < length ps
      then (if bac (ps ! i) \<le> 0.05 then Some i else crossLoop ps (i + 1))
      else None)"
  by pat_completeness auto
termination
  by (relation "measure (\<lambda>(ps, i). length ps - i)") auto

declare crossLoop.simps [simp del]

definition peakIndexOf :: "DataPoint list \<Rightarrow> nat" where
  "peakIndexOf ps = peakLoop ps 1 0"

definition soberTimeInfo :: "DataPoint list \<Rightarrow> SoberTimeInfo option" where
  "soberTimeInfo ps =
     (if length ps = 0 then None
      else (let peakIndex = peakIndexOf ps;
                peakBAC = bac (ps ! peakIndex)
            in if peakBAC < 0.05 then Some (StatusUnder peakBAC)
               else (case crossLoop ps peakIndex of
                       Some i \<Rightarrow> Some (StatusOver peakBAC (time (ps ! i)) (label (ps ! i)) False)
                     | None \<Rightarrow>
                         (let lastP = ps ! (length ps - 1)
                          in Some (StatusOver peakBAC (time lastP) (label lastP) True)))))"

text \<open>\<^verbatim>\<open>if (points.length < 2) return null\<close>: the component renders the chart and the
  analytics only when this test fails.\<close>

definition showsChart :: "DataPoint list \<Rightarrow> bool" where
  "showsChart ps \<longleftrightarrow> \<not> length ps < 2"

section \<open>The absorption history in closed form\<close>

text \<open>What the \<open>k\<close>-th pass of the loop (counting from 0) records when it starts at
  \<open>startTime + k * stepMs\<close>, and the history after the start and \<open>n\<close> passes.\<close>

definition stepLog :: "DrinkGraphProps \<Rightarrow> nat \<Rightarrow> (AbsorbedAt \<times> Drink) list" where
  "stepLog p k =
     map (Pair (InStep k))
       (drinksInInterval p (startTime p + real k * stepMs) (startTime p + real k * stepMs + stepMs))"

definition logUpTo :: "DrinkGraphProps \<Rightarrow> nat \<Rightarrow> (AbsorbedAt \<times> Drink) list" where
  "logUpTo p n = map (Pair AtStart) (initialDrinks p) @ concat (map (stepLog p) [0..<n])"

section \<open>Example inputs\<close>

definition noLabel :: "real \<Rightarrow> string" where
  "noLabel t = []"

definition exA :: Drink where
  "exA = \<lparr> id_drink = ''a'', name = ''beer'', volumeMl = 100, abv = 5,
           standardDrinks = (100 / 1000) * 5 * 0.789, timestamp = 0 \<rparr>"

definition exB :: Drink where
  "exB = \<lparr> id_drink = ''b'', name = ''wine'', volumeMl = 50, abv = 12,
           standardDrinks = (50 / 1000) * 12 * 0.789, timestamp = 500 \<rparr>"

definition exC :: Drink where
  "exC = \<lparr> id_drink = ''c'', name = ''cider'', volumeMl = 100, abv = 4,
           standardDrinks = (100 / 1000) * 4 * 0.789, timestamp = 200000000 \<rparr>"

definition exD :: Drink where
  "exD = \<lparr> id_drink = ''d'', name = ''stout'', volumeMl = 100, abv = 6,
           standardDrinks = (100 / 1000) * 6 * 0.789, timestamp = 1800000 \<rparr>"

text \<open>Four drinks in insertion order (newest first): one at the start, one half a second
  later, one after half an hour and one more than 48 hours after the first.\<close>

definition exProps :: DrinkGraphProps where
  "exProps = \<lparr> drinks = [exC, exD, exB, exA], firstHourBurn = 2, subsequentHourBurn = 1,
               weight = 80, gender = male \<rparr>"

definition exSingle :: DrinkGraphProps where
  "exSingle = \<lparr> drinks = [exA], firstHourBurn = 2, subsequentHourBurn = 1,
                weight = 70, gender = female \<rparr>"

definition mkSeries :: "real list \<Rightarrow> DataPoint list" where
  "mkSeries bs =
     map (\<lambda>(i, b). \<lparr> time = real i * 600000, bac = b, label = noLabel (real i * 600000) \<rparr>)
       (zip [0..<length bs] bs)"

definition exSeries :: "DataPoint list" where
  "exSeries = mkSeries [0.01, 0.08, 0.06, 0.03]"

definition exUnder :: "DataPoint list" where
  "exUnder = mkSeries [0.01, 0.02, 0.03]"

definition exProjected :: "DataPoint list" where
  "exProjected = mkSeries [0.06, 0.09, 0.09, 0.07]"

section \<open>Frame lemmas for the simulation state\<close>

lemma steps_absorb [simp]: "steps (absorb wh ds st) = steps st"
  by (induction ds arbitrary: st) simp_all

lemma steps_stepBody [simp]: "steps (stepBody fmt p st) = steps st"
  by (simp add: stepBody_def pushPoint_def eliminate_def Let_def)

lemma steps_advance [simp]: "steps (advance st) = Suc (steps st)"
  by (simp add: advance_def)

lemma absorb_frame [simp]:
  "currentTime (absorb wh ds st) = currentTime st"
  "timeSinceStart (absorb wh ds st) = timeSinceStart st"
  "dataPoints (absorb wh ds st) = dataPoints st"
  by (induction ds arbitrary: st) simp_all

lemma currentNetSD_absorb:
  "currentNetSD (absorb wh ds st) = currentNetSD st + sum_list (map standardDrinks ds)"
  by (induction ds arbitrary: st) simp_all

lemma absorbed_absorb:
  "absorbed (absorb wh ds st) = absorbed st @ map (Pair wh) ds"
  by (induction ds arbitrary: st) simp_all

lemma pushPoint_frame [simp]:
  "currentNetSD (pushPoint fmt p t st) = currentNetSD st"
  "currentTime (pushPoint fmt p t st) = currentTime st"
  "timeSinceStart (pushPoint fmt p t st) = timeSinceStart st"
  "absorbed (pushPoint fmt p t st) = absorbed st"
  by (simp_all add: pushPoint_def)

lemma eliminate_frame [simp]:
  "currentTime (eliminate p st) = currentTime st"
  "timeSinceStart (eliminate p st) = timeSinceStart st"
  "dataPoints (eliminate p st) = dataPoints st"
  "absorbed (eliminate p st) = absorbed st"
  by (simp_all add: eliminate_def Let_def)

lemma advance_frame [simp]:
  "currentNetSD (advance st) = currentNetSD st"
  "dataPoints (advance st) = dataPoints st"
  "absorbed (advance st) = absorbed st"
  "currentTime (advance st) = currentTime st + stepMs"
  "timeSinceStart (advance st) = timeSinceStart st + stepMs"
  by (simp_all add: advance_def)

lemma stepBody_frame [simp]:
  "currentTime (stepBody fmt p st) = currentTime st"
  "timeSinceStart (stepBody fmt p st) = timeSinceStart st"
  by (simp_all add: stepBody_def Let_def)

lemma dataPoints_stepBody:
  "dataPoints (stepBody fmt p st) = dataPoints st @
     [\<lparr> time = currentTime st + stepMs, bac = toBAC p (currentNetSD (stepBody fmt p st)),
        label = fmt (currentTime st + stepMs) \<rparr>]"
  by (simp add: stepBody_def Let_def pushPoint_def)

lemma absorbed_stepBody:
  "absorbed (stepBody fmt p st) = absorbed st @
     map (Pair (InStep (steps st))) (drinksInInterval p (currentTime st) (currentTime st + stepMs))"
  by (simp add: stepBody_def Let_def absorbed_absorb)

lemma eliminate_nonneg: "0 \<le> currentNetSD st \<Longrightarrow> 0 \<le> currentNetSD (eliminate p st)"
  by (simp add: eliminate_def Let_def)

lemma sum_list_nonneg_drinks:
  "\<forall>d\<in>set ds. 0 \<le> standardDrinks d \<Longrightarrow> 0 \<le> sum_list (map standardDrinks ds)"
  by (induction ds) simp_all

lemma currentNetSD_stepBody_nonneg:
  assumes "0 \<le> currentNetSD st" and "\<forall>d\<in>set (drinks p). 0 \<le> standardDrinks d"
  shows "0 \<le> currentNetSD (stepBody fmt p st)"
proof -
  have "\<forall>d\<in>set (drinksInInterval p (currentTime st) (currentTime st + stepMs)). 0 \<le> standardDrinks d"
    using assms(2) by (simp add: drinksInInterval_def sortedDrinks_def)
  then have "0 \<le> currentNetSD (absorb (InStep (steps st))
      (drinksInInterval p (currentTime st) (currentTime st + stepMs)) st)"
    using assms(1) by (simp add: currentNetSD_absorb sum_list_nonneg_drinks)
  then show ?thesis by (simp add: stepBody_def Let_def eliminate_nonneg)
qed

section \<open>An invariant rule for the loop\<close>

lemma simLoop_rule:
  assumes "I st"
    and "\<And>s. I s \<Longrightarrow> steps s < maxSteps \<Longrightarrow> \<not> stopNow p (stepBody fmt p s) \<Longrightarrow>
           I (advance (stepBody fmt p s))"
    and "\<And>s. I s \<Longrightarrow> steps s < maxSteps \<Longrightarrow> stopNow p (stepBody fmt p s) \<Longrightarrow>
           Q (stepBody fmt p s)"
    and "\<And>s. I s \<Longrightarrow> \<not> steps s < maxSteps \<Longrightarrow> Q s"
  shows "Q (simLoop fmt p st)"
  using assms(1)
proof (induction "maxSteps - steps st" arbitrary: st rule: less_induct)
  case less
  show ?case
  proof (cases "steps st < maxSteps")
    case False
    then have "simLoop fmt p st = st" by (subst simLoop.simps) simp
    then show ?thesis using assms(4)[OF less.prems False] by simp
  next
    case True
    show ?thesis
    proof (cases "stopNow p (stepBody fmt p st)")
      case stop: True
      then have "simLoop fmt p st = stepBody fmt p st" using True by (subst simLoop.simps) simp
      then show ?thesis using assms(3)[OF less.prems True stop] by simp
    next
      case go: False
      then have e: "simLoop fmt p st = simLoop fmt p (advance (stepBody fmt p st))"
        using True by (subst simLoop.simps) simp
      have d: "maxSteps - steps (advance (stepBody fmt p st)) < maxSteps - steps st"
        using True by simp
      show ?thesis unfolding e
        by (rule less.hyps[OF d assms(2)[OF less.prems True go]])
    qed
  qed
qed

section \<open>The sorted drinks\<close>

lemma set_sortedDrinks [simp]: "set (sortedDrinks p) = set (drinks p)"
  by (simp add: sortedDrinks_def)

lemma mset_sortedDrinks [simp]: "mset (sortedDrinks p) = mset (drinks p)"
  by (simp add: sortedDrinks_def)

lemma sortedDrinks_Nil [simp]: "sortedDrinks p = [] \<longleftrightarrow> drinks p = []"
  by (metis set_sortedDrinks set_empty)

lemma sorted_hd_le: "sorted (map f xs) \<Longrightarrow> x \<in> set xs \<Longrightarrow> f (hd xs) \<le> f x"
  by (cases xs) auto

lemma sorted_le_last: "sorted (map f xs) \<Longrightarrow> x \<in> set xs \<Longrightarrow> f x \<le> f (last xs)"
  by (induction xs) (auto split: if_splits)

lemma startTime_le: "d \<in> set (drinks p) \<Longrightarrow> startTime p \<le> timestamp d"
  unfolding startTime_def
  by (rule sorted_hd_le) (simp_all add: sortedDrinks_def)

lemma le_lastDrinkTime: "d \<in> set (drinks p) \<Longrightarrow> timestamp d \<le> lastDrinkTime p"
  unfolding lastDrinkTime_def
  by (rule sorted_le_last) (simp_all add: sortedDrinks_def)

lemma startTime_Min:
  assumes "drinks p \<noteq> []"
  shows "startTime p = Min (timestamp ` set (drinks p))"
proof -
  have "sortedDrinks p \<noteq> []" using assms by simp
  then have "hd (sortedDrinks p) \<in> set (sortedDrinks p)" by (rule hd_in_set)
  then have m: "startTime p \<in> timestamp ` set (drinks p)" by (simp add: startTime_def)
  show ?thesis
    by (rule sym, rule Min_eqI) (use m startTime_le in auto)
qed

section \<open>The state at loop entry\<close>

lemma initState_fields:
  "currentTime (initState fmt p) = startTime p"
  "timeSinceStart (initState fmt p) = 0"
  "steps (initState fmt p) = 0"
  "currentNetSD (initState fmt p) = sum_list (map standardDrinks (initialDrinks p))"
  "dataPoints (initState fmt p) =
     [\<lparr> time = startTime p, bac = toBAC p (sum_list (map standardDrinks (initialDrinks p))),
        label = fmt (startTime p) \<rparr>]"
  "absorbed (initState fmt p) = map (Pair AtStart) (initialDrinks p)"
  by (simp_all add: initState_def pushPoint_def currentNetSD_absorb absorbed_absorb)

section \<open>Shape of the series\<close>

lemma dataPoints_simLoop_prefix: "\<exists>ys. dataPoints (simLoop fmt p st) = dataPoints st @ ys"
  by (rule simLoop_rule[where I = "\<lambda>s. \<exists>ys. dataPoints s = dataPoints st @ ys"])
     (auto simp: dataPoints_stepBody)

lemma dataPoints_run_shape:
  "length (dataPoints (run fmt p)) \<le> maxSteps + 1 \<and> steps (run fmt p) \<le> maxSteps \<and>
   (\<forall>i<length (dataPoints (run fmt p)). time (dataPoints (run fmt p) ! i) = startTime p + real i * stepMs)"
  unfolding run_def
proof (rule simLoop_rule[where I = "\<lambda>s. steps s \<le> maxSteps \<and> currentTime s = startTime p + real (steps s) * stepMs \<and>
      length (dataPoints s) = steps s + 1 \<and>
      (\<forall>i<length (dataPoints s). time (dataPoints s ! i) = startTime p + real i * stepMs)"], goal_cases)
  case 1
  then show ?case by (simp add: initState_fields)
next
  case (2 s)
  then show ?case
    by (auto simp: dataPoints_stepBody nth_append algebra_simps less_Suc_eq)
next
  case (3 s)
  then show ?case
    by (auto simp: dataPoints_stepBody nth_append algebra_simps less_Suc_eq)
next
  case (4 s)
  then show ?case by auto
qed

lemma length_dataPoints_run: "2 \<le> length (dataPoints (run fmt p))"
proof -
  let ?s = "initState fmt p"
  have lt: "steps ?s < maxSteps" by (simp add: initState_fields maxSteps_def)
  have l2: "length (dataPoints (stepBody fmt p ?s)) = 2"
    by (simp add: dataPoints_stepBody initState_fields)
  show ?thesis
  proof (cases "stopNow p (stepBody fmt p ?s)")
    case True
    then have "run fmt p = stepBody fmt p ?s"
      unfolding run_def using lt by (subst simLoop.simps) simp
    then show ?thesis using l2 by simp
  next
    case False
    then have e: "run fmt p = simLoop fmt p (advance (stepBody fmt p ?s))"
      unfolding run_def using lt by (subst simLoop.simps) simp
    obtain ys where "dataPoints (simLoop fmt p (advance (stepBody fmt p ?s))) =
        dataPoints (advance (stepBody fmt p ?s)) @ ys"
      using dataPoints_simLoop_prefix by blast
    then show ?thesis using l2 e by simp
  qed
qed

lemma hd_dataPoints_run:
  "hd (dataPoints (run fmt p)) =
     \<lparr> time = startTime p, bac = toBAC p (sum_list (map standardDrinks (initialDrinks p))),
        label = fmt (startTime p) \<rparr>"
proof -
  obtain ys where "dataPoints (run fmt p) = dataPoints (initState fmt p) @ ys"
    unfolding run_def using dataPoints_simLoop_prefix by blast
  then show ?thesis by (simp add: initState_fields)
qed

lemma dataPoints_run_second:
  "dataPoints (run fmt p) ! 1 =
     \<lparr> time = startTime p + stepMs,
       bac = toBAC p (currentNetSD (stepBody fmt p (initState fmt p))),
       label = fmt (startTime p + stepMs) \<rparr>"
proof -
  let ?s = "initState fmt p"
  have lt: "steps ?s < maxSteps" by (simp add: initState_fields maxSteps_def)
  have b: "dataPoints (stepBody fmt p ?s) ! 1 =
     \<lparr> time = startTime p + stepMs, bac = toBAC p (currentNetSD (stepBody fmt p ?s)),
       label = fmt (startTime p + stepMs) \<rparr>"
    by (simp add: dataPoints_stepBody initState_fields)
  have l2: "length (dataPoints (stepBody fmt p ?s)) = 2"
    by (simp add: dataPoints_stepBody initState_fields)
  show ?thesis
  proof (cases "stopNow p (stepBody fmt p ?s)")
    case True
    then have "run fmt p = stepBody fmt p ?s"
      unfolding run_def using lt by (subst simLoop.simps) simp
    then show ?thesis using b by simp
  next
    case False
    then have e: "run fmt p = simLoop fmt p (advance (stepBody fmt p ?s))"
      unfolding run_def using lt by (subst simLoop.simps) simp
    obtain ys where "dataPoints (simLoop fmt p (advance (stepBody fmt p ?s))) =
        dataPoints (advance (stepBody fmt p ?s)) @ ys"
      using dataPoints_simLoop_prefix by blast
    then have "dataPoints (run fmt p) ! 1 = dataPoints (stepBody fmt p ?s) ! 1"
      using l2 e by (simp add: nth_append)
    then show ?thesis using b by simp
  qed
qed

section \<open>The net count is never negative\<close>

lemma toBAC_nonneg: "0 \<le> n \<Longrightarrow> 0 \<le> toBAC p n"
  by (simp add: toBAC_def w_def r_def)

lemma run_nonneg:
  assumes "\<forall>d\<in>set (drinks p). 0 \<le> standardDrinks d"
  shows "0 \<le> currentNetSD (run fmt p) \<and> (\<forall>pt\<in>set (dataPoints (run fmt p)). 0 \<le> bac pt)"
  unfolding run_def
proof (rule simLoop_rule[where I = "\<lambda>s. 0 \<le> currentNetSD s \<and> (\<forall>pt\<in>set (dataPoints s). 0 \<le> bac pt)"], goal_cases)
  case 1
  have "\<forall>d\<in>set (initialDrinks p). 0 \<le> standardDrinks d"
    using assms by (simp add: initialDrinks_def)
  then show ?case by (simp add: initState_fields toBAC_nonneg sum_list_nonneg_drinks)
next
  case (2 s)
  then show ?case
    using currentNetSD_stepBody_nonneg[OF _ assms, of s fmt]
    by (simp add: dataPoints_stepBody toBAC_nonneg)
next
  case (3 s)
  then show ?case
    using currentNetSD_stepBody_nonneg[OF _ assms, of s fmt]
    by (simp add: dataPoints_stepBody toBAC_nonneg)
next
  case (4 s)
  then show ?case by simp
qed

section \<open>The absorption history of a run\<close>

lemma logUpTo_Suc: "logUpTo p (Suc n) = logUpTo p n @ stepLog p n"
  by (simp add: logUpTo_def)

lemma stepMs_pos: "0 < stepMs"
  by (simp add: stepMs_def stepsInMinutes_def)

lemma absorbed_run:
  "\<exists>n. 0 < n \<and> n \<le> maxSteps \<and> absorbed (run fmt p) = logUpTo p n \<and>
       (n = maxSteps \<or> lastDrinkTime p < startTime p + real n * stepMs)"
  unfolding run_def
proof (rule simLoop_rule[where I = "\<lambda>s. steps s \<le> maxSteps \<and>
      currentTime s = startTime p + real (steps s) * stepMs \<and> absorbed s = logUpTo p (steps s)"], goal_cases)
  case 1
  then show ?case by (simp add: initState_fields logUpTo_def)
next
  case (2 s)
  then show ?case
    by (simp add: absorbed_stepBody logUpTo_Suc stepLog_def algebra_simps)
next
  case (3 s)
  have a: "absorbed (stepBody fmt p s) = logUpTo p (Suc (steps s))"
    using 3 by (simp add: absorbed_stepBody logUpTo_Suc stepLog_def)
  have "lastDrinkTime p < startTime p + real (steps s) * stepMs"
    using 3 by (simp add: stopNow_def)
  then have b: "lastDrinkTime p < startTime p + real (Suc (steps s)) * stepMs"
    using stepMs_pos by (simp add: algebra_simps)
  have c: "Suc (steps s) \<le> maxSteps" using 3 by simp
  show ?case using a b c by blast
next
  case (4 s)
  then have "steps s = maxSteps" by simp
  then show ?case using 4 by (auto simp: maxSteps_def)
qed

section \<open>Counting the entries of the history\<close>

lemma count_list_filter:
  "count_list (filter P xs) x = (if P x then count_list xs x else 0)"
  by (induction xs) auto

lemma count_list_map_Pair:
  "count_list (map (Pair a) xs) (b, x) = (if a = b then count_list xs x else 0)"
  by (induction xs) auto

lemma count_list_sortedDrinks: "count_list (sortedDrinks p) d = count_list (drinks p) d"
  by (metis count_mset mset_sortedDrinks)

lemma count_AtStart_steps: "count_list (concat (map (stepLog p) [0..<n])) (AtStart, d) = 0"
  by (induction n) (simp_all add: stepLog_def count_list_map_Pair)

lemma count_InStep_steps:
  "count_list (concat (map (stepLog p) [0..<n])) (InStep k, d) =
     (if k < n then count_list (stepLog p k) (InStep k, d) else 0)"
  by (induction n) (auto simp: stepLog_def count_list_map_Pair less_Suc_eq)

lemma count_logUpTo_AtStart:
  "count_list (logUpTo p n) (AtStart, d) =
     (if \<bar>timestamp d - startTime p\<bar> < 1000 then count_list (drinks p) d else 0)"
  by (simp add: logUpTo_def count_AtStart_steps count_list_map_Pair initialDrinks_def
      count_list_filter count_list_sortedDrinks)

lemma count_logUpTo_InStep:
  "count_list (logUpTo p n) (InStep k, d) =
     (if k < n \<and> startTime p + real k * stepMs < timestamp d \<and>
         timestamp d \<le> startTime p + real k * stepMs + stepMs
      then count_list (drinks p) d else 0)"
  by (simp add: logUpTo_def count_InStep_steps count_list_map_Pair stepLog_def drinksInInterval_def
      count_list_filter count_list_sortedDrinks)

lemma stepMs_val: "stepMs = 600000"
  by (simp add: stepMs_def stepsInMinutes_def)

lemma maxSteps_val: "maxSteps = 288"
  by (simp add: maxSteps_def)

lemma step_index_exists:
  fixes t s :: real
  assumes "s < t"
  shows "\<exists>k::nat. s + real k * stepMs < t \<and> t \<le> s + real k * stepMs + stepMs"
proof -
  let ?x = "(t - s) / stepMs"
  have xpos: "0 < ?x" using assms stepMs_pos by simp
  then have c1: "1 \<le> \<lceil>?x\<rceil>" by linarith
  let ?k = "nat (\<lceil>?x\<rceil> - 1)"
  have rk: "real ?k = of_int \<lceil>?x\<rceil> - 1" using c1 by simp
  have "real ?k < ?x" unfolding rk by linarith
  then have a: "real ?k * stepMs < t - s" using stepMs_pos by (simp add: pos_less_divide_eq)
  have "?x \<le> real ?k + 1" unfolding rk by linarith
  then have b: "t - s \<le> (real ?k + 1) * stepMs" using stepMs_pos by (simp add: pos_divide_le_eq)
  show ?thesis using a b by (intro exI[of _ ?k]) (simp add: algebra_simps)
qed

lemma step_index_unique:
  fixes t s :: real and j k :: nat
  assumes "s + real j * stepMs < t" "t \<le> s + real j * stepMs + stepMs"
    and "s + real k * stepMs < t" "t \<le> s + real k * stepMs + stepMs"
  shows "j = k"
proof -
  have "real j * stepMs < (real k + 1) * stepMs" using assms by (simp add: algebra_simps)
  then have 1: "real j < real k + 1" using stepMs_pos by simp
  have "real k * stepMs < (real j + 1) * stepMs" using assms by (simp add: algebra_simps)
  then have 2: "real k < real j + 1" using stepMs_pos by simp
  from 1 2 show ?thesis by linarith
qed


lemma absorbed_twice_near_start:
  assumes "startTime p < timestamp d" "timestamp d < startTime p + 1000"
  shows "count_list (absorbed (run fmt p)) (AtStart, d) = count_list (drinks p) d \<and>
         count_list (absorbed (run fmt p)) (InStep 0, d) = count_list (drinks p) d"
proof -
  obtain n where n: "0 < n" "absorbed (run fmt p) = logUpTo p n"
    using absorbed_run by blast
  show ?thesis using assms n(1)
    by (simp add: n(2) count_logUpTo_AtStart count_logUpTo_InStep stepMs_val)
qed

lemma never_absorbed_after_horizon:
  assumes "startTime p + real maxSteps * stepMs < timestamp d"
  shows "count_list (absorbed (run fmt p)) (AtStart, d) = 0 \<and>
         count_list (absorbed (run fmt p)) (InStep k, d) = 0"
proof -
  obtain n where n: "n \<le> maxSteps" "absorbed (run fmt p) = logUpTo p n"
    using absorbed_run by blast
  have a: "\<not> \<bar>timestamp d - startTime p\<bar> < 1000"
    using assms by (simp add: stepMs_val maxSteps_val)
  have "real k * stepMs + stepMs \<le> real maxSteps * stepMs" if "k < n"
  proof -
    have "real k + 1 \<le> real maxSteps" using that n(1) by simp
    then have "(real k + 1) * stepMs \<le> real maxSteps * stepMs"
      using stepMs_pos by (simp only: mult_le_cancel_right_pos)
    then show ?thesis by (simp add: algebra_simps)
  qed
  then have b: "\<not> (k < n \<and> timestamp d \<le> startTime p + real k * stepMs + stepMs)"
    using assms by fastforce
  show ?thesis using a b by (auto simp add: n(2) count_logUpTo_AtStart count_logUpTo_InStep)
qed

lemma never_absorbed_after_horizon_set:
  assumes "startTime p + real maxSteps * stepMs < timestamp d"
  shows "d \<notin> snd ` set (absorbed (run fmt p))"
proof
  assume "d \<in> snd ` set (absorbed (run fmt p))"
  then obtain wh where m: "(wh, d) \<in> set (absorbed (run fmt p))" by force
  have "count_list (absorbed (run fmt p)) (wh, d) = 0"
    using never_absorbed_after_horizon[OF assms] by (cases wh) auto
  then show False using m by (simp add: count_list_0_iff)
qed

section \<open>The two loops of the analytics\<close>

lemma peakLoop_first_max:
  "k < i \<Longrightarrow> k < length ps \<Longrightarrow>
   (\<forall>j<i. j < length ps \<longrightarrow> bac (ps ! j) \<le> bac (ps ! k)) \<Longrightarrow>
   (\<forall>j<k. bac (ps ! j) < bac (ps ! k)) \<Longrightarrow>
   peakLoop ps i k < length ps \<and>
   (\<forall>j<length ps. bac (ps ! j) \<le> bac (ps ! peakLoop ps i k)) \<and>
   (\<forall>j<peakLoop ps i k. bac (ps ! j) < bac (ps ! peakLoop ps i k))"
proof (induction ps i k rule: peakLoop.induct)
  case (1 ps i k)
  show ?case
  proof (cases "i < length ps")
    case False
    then have e: "peakLoop ps i k = k" by (simp add: peakLoop.simps)
    from False 1(2-) show ?thesis unfolding e by auto
  next
    case True
    let ?k' = "if bac (ps ! i) > bac (ps ! k) then i else k"
    have e: "peakLoop ps i k = peakLoop ps (i + 1) ?k'"
      using True by (subst peakLoop.simps) simp
    have a1: "?k' < i + 1" using 1(2) by simp
    have a2: "?k' < length ps" using True 1(3) by simp
    have a3: "\<forall>j<i + 1. j < length ps \<longrightarrow> bac (ps ! j) \<le> bac (ps ! ?k')"
    proof (intro allI impI)
      fix j assume "j < i + 1" "j < length ps"
      then consider "j < i" | "j = i" by linarith
      then show "bac (ps ! j) \<le> bac (ps ! ?k')"
      proof cases
        case 1
        then show ?thesis using \<open>j < length ps\<close> "1.prems"(3) by (auto intro: order_trans less_imp_le)
      next
        case 2
        then show ?thesis by auto
      qed
    qed
    have a4: "\<forall>j<?k'. bac (ps ! j) < bac (ps ! ?k')"
    proof (intro allI impI)
      fix j assume j: "j < ?k'"
      show "bac (ps ! j) < bac (ps ! ?k')"
      proof (cases "bac (ps ! i) > bac (ps ! k)")
        case False
        then show ?thesis using j "1.prems"(4) by simp
      next
        case gt: True
        then have "j < i" using j by simp
        then have "bac (ps ! j) \<le> bac (ps ! k)" using "1.prems"(3) True by simp
        then show ?thesis using gt by simp
      qed
    qed
    from "1.IH"[OF True a1 a2 a3 a4] show ?thesis unfolding e .
  qed
qed

lemma peakIndexOf_first_max:
  assumes "ps \<noteq> []"
  shows "peakIndexOf ps < length ps \<and>
   (\<forall>j<length ps. bac (ps ! j) \<le> bac (ps ! peakIndexOf ps)) \<and>
   (\<forall>j<peakIndexOf ps. bac (ps ! j) < bac (ps ! peakIndexOf ps))"
proof -
  have l: "0 < length ps" using assms by simp
  have "\<forall>j<(1::nat). j < length ps \<longrightarrow> bac (ps ! j) \<le> bac (ps ! 0)" by simp
  then show ?thesis
    unfolding peakIndexOf_def using peakLoop_first_max[of 0 1 ps] l by simp
qed

lemma crossLoop_Some:
  "crossLoop ps i = Some m \<longleftrightarrow>
     i \<le> m \<and> m < length ps \<and> bac (ps ! m) \<le> 0.05 \<and> (\<forall>j. i \<le> j \<and> j < m \<longrightarrow> \<not> bac (ps ! j) \<le> 0.05)"
proof (induction ps i rule: crossLoop.induct)
  case (1 ps i)
  show ?case
  proof (cases "i < length ps")
    case False
    then show ?thesis by (subst crossLoop.simps) auto
  next
    case True
    show ?thesis
    proof (cases "bac (ps ! i) \<le> 0.05")
      case hit: True
      have e: "crossLoop ps i = Some i" using True hit by (subst crossLoop.simps) simp
      show ?thesis unfolding e
      proof
        assume "Some i = Some m"
        then show "i \<le> m \<and> m < length ps \<and> bac (ps ! m) \<le> 0.05 \<and>
            (\<forall>j. i \<le> j \<and> j < m \<longrightarrow> \<not> bac (ps ! j) \<le> 0.05)"
          using True hit by auto
      next
        assume rhs: "i \<le> m \<and> m < length ps \<and> bac (ps ! m) \<le> 0.05 \<and>
            (\<forall>j. i \<le> j \<and> j < m \<longrightarrow> \<not> bac (ps ! j) \<le> 0.05)"
        have "\<not> i < m" using rhs hit by auto
        then show "Some i = Some m" using rhs by simp
      qed
    next
      case miss: False
      have e: "crossLoop ps i = crossLoop ps (i + 1)" using True miss by (subst crossLoop.simps) simp
      have "(i + 1 \<le> m \<and> m < length ps \<and> bac (ps ! m) \<le> 0.05 \<and> (\<forall>j. i + 1 \<le> j \<and> j < m \<longrightarrow> \<not> bac (ps ! j) \<le> 0.05))
        \<longleftrightarrow> (i \<le> m \<and> m < length ps \<and> bac (ps ! m) \<le> 0.05 \<and> (\<forall>j. i \<le> j \<and> j < m \<longrightarrow> \<not> bac (ps ! j) \<le> 0.05))"
      proof -
        have s: "i \<le> j \<longleftrightarrow> j = i \<or> i + 1 \<le> j" for j by auto
        show ?thesis using miss by (auto simp: s)
      qed
      then show ?thesis unfolding e using "1.IH"[OF True miss] by simp
    qed
  qed
qed

lemma crossLoop_None:
  "crossLoop ps i = None \<longleftrightarrow> (\<forall>j. i \<le> j \<and> j < length ps \<longrightarrow> \<not> bac (ps ! j) \<le> 0.05)"
proof (induction ps i rule: crossLoop.induct)
  case (1 ps i)
  show ?case
  proof (cases "i < length ps")
    case False
    then show ?thesis by (subst crossLoop.simps) auto
  next
    case True
    show ?thesis
    proof (cases "bac (ps ! i) \<le> 0.05")
      case hit: True
      have e: "crossLoop ps i = Some i" using True hit by (subst crossLoop.simps) simp
      show ?thesis unfolding e using True hit by auto
    next
      case miss: False
      have e: "crossLoop ps i = crossLoop ps (i + 1)" using True miss by (subst crossLoop.simps) simp
      have "(\<forall>j. i + 1 \<le> j \<and> j < length ps \<longrightarrow> \<not> bac (ps ! j) \<le> 0.05)
        \<longleftrightarrow> (\<forall>j. i \<le> j \<and> j < length ps \<longrightarrow> \<not> bac (ps ! j) \<le> 0.05)"
      proof -
        have s: "i \<le> j \<longleftrightarrow> j = i \<or> i + 1 \<le> j" for j by auto
        show ?thesis using miss by (auto simp: s)
      qed
      then show ?thesis unfolding e using "1.IH"[OF True miss] by simp
    qed
  qed
qed


section \<open>Facts about the example inputs\<close>

lemma sortedDrinks_exProps: "sortedDrinks exProps = [exA, exB, exD, exC]"
  by (simp add: sortedDrinks_def exProps_def exA_def exB_def exC_def exD_def)

lemma startTime_exProps: "startTime exProps = 0"
  by (simp add: startTime_def sortedDrinks_exProps) (simp add: exA_def)

lemma initialDrinks_exProps: "initialDrinks exProps = [exA, exB]"
  by (simp add: initialDrinks_def sortedDrinks_exProps startTime_exProps)
     (simp add: exA_def exB_def exC_def exD_def)

lemma firstInterval_exProps: "drinksInInterval exProps 0 stepMs = [exB]"
  by (simp add: drinksInInterval_def sortedDrinks_exProps stepMs_val)
     (simp add: exA_def exB_def exC_def exD_def)

lemma second_point_exProps:
  "bac (points noLabel exProps ! 1) =
     toBAC exProps (standardDrinks exA + 2 * standardDrinks exB - stepBurnFirstHour exProps)"
proof -
  have ne: "drinks exProps \<noteq> []" by (simp add: exProps_def)
  have pos: "0 < standardDrinks exA + 2 * standardDrinks exB - stepBurnFirstHour exProps"
    by (simp add: exA_def exB_def stepBurnFirstHour_def stepsInMinutes_def exProps_def)
  have pos2: "0 < 2 * standardDrinks exB + standardDrinks exA"
    by (simp add: exA_def exB_def)
  have "currentNetSD (stepBody noLabel exProps (initState noLabel exProps)) =
      standardDrinks exA + 2 * standardDrinks exB - stepBurnFirstHour exProps"
    using pos pos2
    by (simp add: stepBody_def Let_def eliminate_def burnAmount_def currentNetSD_absorb
        initState_fields startTime_exProps initialDrinks_exProps firstInterval_exProps)
  moreover have "points noLabel exProps = dataPoints (run noLabel exProps)"
    using ne by (simp add: points_def)
  moreover have "bac (dataPoints (run noLabel exProps) ! 1) =
      toBAC exProps (currentNetSD (stepBody noLabel exProps (initState noLabel exProps)))"
    by (subst dataPoints_run_second) simp
  ultimately show ?thesis by (simp only:)
qed

lemma count_exProps:
  "count_list (drinks exProps) exA = 1"
  "count_list (drinks exProps) exB = 1"
  "count_list (drinks exProps) exD = 1"
  by (simp_all add: exProps_def exA_def exB_def exC_def exD_def)

lemma mkSeries_4: "mkSeries [a, b, c, d] =
  [\<lparr> time = 0, bac = a, label = [] \<rparr>, \<lparr> time = 600000, bac = b, label = [] \<rparr>,
   \<lparr> time = 1200000, bac = c, label = [] \<rparr>, \<lparr> time = 1800000, bac = d, label = [] \<rparr>]"
  by (simp add: mkSeries_def noLabel_def upt_rec)

lemma mkSeries_3: "mkSeries [a, b, c] =
  [\<lparr> time = 0, bac = a, label = [] \<rparr>, \<lparr> time = 600000, bac = b, label = [] \<rparr>,
   \<lparr> time = 1200000, bac = c, label = [] \<rparr>]"
  by (simp add: mkSeries_def noLabel_def upt_rec)

lemma peakIndexOf_exSeries: "peakIndexOf exSeries = 1"
  by (simp add: peakIndexOf_def exSeries_def mkSeries_4 peakLoop.simps)

lemma peakIndexOf_exUnder: "peakIndexOf exUnder = 2"
  by (simp add: peakIndexOf_def exUnder_def mkSeries_3 peakLoop.simps)

lemma peakIndexOf_exProjected: "peakIndexOf exProjected = 1"
  by (simp add: peakIndexOf_def exProjected_def mkSeries_4 peakLoop.simps)

section \<open>The claims\<close>

subsection \<open>C1: every drink is absorbed exactly once\<close>

text \<open>
  Claim C1 as stated fails on the code in two ways. In \<open>exProps\<close> the drink \<open>exB\<close>,
  taken half a second after the first one, occurs once in the input and is added to
  \<^verbatim>\<open>currentNetSD\<close> twice: once with \<^verbatim>\<open>initialDrinks\<close> and once more in the first pass of
  the loop, whose interval \<open>(startTime, startTime + stepMs]\<close> contains it, so that the
  second point of the series is computed from a net count that holds \<open>exB\<close> twice. The drink
  \<open>exC\<close>, taken more than \<open>maxSteps\<close> steps after the first one, is never added.
\<close>

theorem absorbed_once_counterexample:
  "count_list (drinks exProps) exB = 1 \<and>
   count_list (absorbed (run noLabel exProps)) (AtStart, exB) = 1 \<and>
   count_list (absorbed (run noLabel exProps)) (InStep 0, exB) = 1 \<and>
   bac (points noLabel exProps ! 1) =
     toBAC exProps (standardDrinks exA + 2 * standardDrinks exB - stepBurnFirstHour exProps) \<and>
   exC \<in> set (drinks exProps) \<and>
   exC \<notin> snd ` set (absorbed (run noLabel exProps))"
proof -
  have b: "startTime exProps < timestamp exB" "timestamp exB < startTime exProps + 1000"
    by (simp_all add: startTime_exProps exB_def)
  have c: "startTime exProps + real maxSteps * stepMs < timestamp exC"
    by (simp add: startTime_exProps exC_def maxSteps_val stepMs_val)
  have "exC \<in> set (drinks exProps)" by (simp add: exProps_def)
  then show ?thesis
    using absorbed_twice_near_start[OF b, of noLabel] never_absorbed_after_horizon_set[OF c, of noLabel]
      second_point_exProps
    by (simp add: count_exProps)
qed

text \<open>
  Claim C1, amended: a drink of the input whose timestamp equals the first drink's
  timestamp is added at session start as often as it occurs in the input (once, when it
  occurs once) and in no pass of the loop. A drink whose timestamp is at least one second
  and at most \<open>maxSteps\<close> steps after the first is not added at session start; there is
  exactly one pass \<open>k\<close>, with \<open>k < maxSteps\<close>, whose interval
  \<open>(startTime + k * stepMs, startTime + k * stepMs + stepMs]\<close> contains the timestamp; the
  drink is added in that pass as often as it occurs in the input, and in no other pass.
  A drink later than \<open>maxSteps\<close> steps after the first is never added: the loop is
  capped. Nothing is said about a drink less than one second after the first.
\<close>

theorem absorbed_once_within_horizon:
  assumes "d \<in> set (drinks p)"
  shows "(timestamp d = startTime p \<longrightarrow>
            count_list (absorbed (run fmt p)) (AtStart, d) = count_list (drinks p) d \<and>
            (\<forall>j. count_list (absorbed (run fmt p)) (InStep j, d) = 0)) \<and>
         (startTime p + 1000 \<le> timestamp d \<and> timestamp d \<le> startTime p + real maxSteps * stepMs \<longrightarrow>
            count_list (absorbed (run fmt p)) (AtStart, d) = 0 \<and>
            (\<exists>k<maxSteps. startTime p + real k * stepMs < timestamp d \<and>
                 timestamp d \<le> startTime p + real k * stepMs + stepMs \<and>
                 count_list (absorbed (run fmt p)) (InStep k, d) = count_list (drinks p) d \<and>
                 (\<forall>j. j \<noteq> k \<longrightarrow> count_list (absorbed (run fmt p)) (InStep j, d) = 0))) \<and>
         (startTime p + real maxSteps * stepMs < timestamp d \<longrightarrow>
            d \<notin> snd ` set (absorbed (run fmt p)))"
proof -
  obtain n where n: "0 < n" "n \<le> maxSteps" "absorbed (run fmt p) = logUpTo p n"
      "n = maxSteps \<or> lastDrinkTime p < startTime p + real n * stepMs"
    using absorbed_run by blast
  have first: "timestamp d = startTime p \<longrightarrow>
            count_list (absorbed (run fmt p)) (AtStart, d) = count_list (drinks p) d \<and>
            (\<forall>j. count_list (absorbed (run fmt p)) (InStep j, d) = 0)"
  proof
    assume e: "timestamp d = startTime p"
    have "\<not> startTime p + real j * stepMs < timestamp d" for j
    proof -
      have "0 \<le> real j * stepMs" using stepMs_pos by simp
      then show ?thesis using e by simp
    qed
    then show "count_list (absorbed (run fmt p)) (AtStart, d) = count_list (drinks p) d \<and>
            (\<forall>j. count_list (absorbed (run fmt p)) (InStep j, d) = 0)"
      using e by (simp add: n(3) count_logUpTo_AtStart count_logUpTo_InStep)
  qed
  have later: "startTime p + 1000 \<le> timestamp d \<and> timestamp d \<le> startTime p + real maxSteps * stepMs \<longrightarrow>
            count_list (absorbed (run fmt p)) (AtStart, d) = 0 \<and>
            (\<exists>k<maxSteps. startTime p + real k * stepMs < timestamp d \<and>
                 timestamp d \<le> startTime p + real k * stepMs + stepMs \<and>
                 count_list (absorbed (run fmt p)) (InStep k, d) = count_list (drinks p) d \<and>
                 (\<forall>j. j \<noteq> k \<longrightarrow> count_list (absorbed (run fmt p)) (InStep j, d) = 0))"
  proof
    assume h: "startTime p + 1000 \<le> timestamp d \<and> timestamp d \<le> startTime p + real maxSteps * stepMs"
    then have "startTime p < timestamp d" by simp
    then obtain k where k: "startTime p + real k * stepMs < timestamp d"
        "timestamp d \<le> startTime p + real k * stepMs + stepMs"
      using step_index_exists by blast
    have "timestamp d \<le> startTime p + real n * stepMs"
      using n(4) h le_lastDrinkTime[OF assms] by auto
    then have "real k * stepMs < real n * stepMs" using k(1) by simp
    then have kn: "k < n" using stepMs_pos by simp
    have at0: "count_list (absorbed (run fmt p)) (AtStart, d) = 0"
      using h by (simp add: n(3) count_logUpTo_AtStart)
    have ck: "count_list (absorbed (run fmt p)) (InStep k, d) = count_list (drinks p) d"
      using k kn by (simp add: n(3) count_logUpTo_InStep)
    have others: "\<forall>j. j \<noteq> k \<longrightarrow> count_list (absorbed (run fmt p)) (InStep j, d) = 0"
    proof (intro allI impI)
      fix j assume "j \<noteq> k"
      then have "\<not> (startTime p + real j * stepMs < timestamp d \<and>
          timestamp d \<le> startTime p + real j * stepMs + stepMs)"
        using step_index_unique[of "startTime p" j "timestamp d" k] k by blast
      then show "count_list (absorbed (run fmt p)) (InStep j, d) = 0"
        unfolding n(3) count_logUpTo_InStep by auto
    qed
    have "k < maxSteps" using kn n(2) by simp
    then show "count_list (absorbed (run fmt p)) (AtStart, d) = 0 \<and>
            (\<exists>k<maxSteps. startTime p + real k * stepMs < timestamp d \<and>
                 timestamp d \<le> startTime p + real k * stepMs + stepMs \<and>
                 count_list (absorbed (run fmt p)) (InStep k, d) = count_list (drinks p) d \<and>
                 (\<forall>j. j \<noteq> k \<longrightarrow> count_list (absorbed (run fmt p)) (InStep j, d) = 0))"
      using at0 k ck others by blast
  qed
  have beyond: "startTime p + real maxSteps * stepMs < timestamp d \<longrightarrow>
            d \<notin> snd ` set (absorbed (run fmt p))"
    using never_absorbed_after_horizon_set[of p d fmt] by blast
  from first later beyond show ?thesis by blast
qed


theorem absorbed_once_within_horizon_witness:
  "exA \<in> set (drinks exProps) \<and> timestamp exA = startTime exProps \<and>
   count_list (absorbed (run noLabel exProps)) (AtStart, exA) = 1 \<and>
   count_list (absorbed (run noLabel exProps)) (InStep 0, exA) = 0 \<and>
   exD \<in> set (drinks exProps) \<and> startTime exProps + 1000 \<le> timestamp exD \<and>
   timestamp exD \<le> startTime exProps + real maxSteps * stepMs \<and>
   count_list (absorbed (run noLabel exProps)) (AtStart, exD) = 0 \<and>
   count_list (absorbed (run noLabel exProps)) (InStep 2, exD) = 1 \<and>
   count_list (absorbed (run noLabel exProps)) (InStep 3, exD) = 0 \<and>
   exC \<in> set (drinks exProps) \<and>
   startTime exProps + real maxSteps * stepMs < timestamp exC \<and>
   count_list (absorbed (run noLabel exProps)) (InStep 287, exC) = 0"
proof -
  have a: "exA \<in> set (drinks exProps)" and d: "exD \<in> set (drinks exProps)"
    by (simp_all add: exProps_def)
  have ta: "timestamp exA = startTime exProps"
    by (simp add: startTime_exProps exA_def)
  have td: "startTime exProps + 1000 \<le> timestamp exD \<and>
      timestamp exD \<le> startTime exProps + real maxSteps * stepMs"
    by (simp add: startTime_exProps exD_def maxSteps_val stepMs_val)
  have ra: "count_list (absorbed (run noLabel exProps)) (AtStart, exA) = 1 \<and>
      count_list (absorbed (run noLabel exProps)) (InStep 0, exA) = 0"
    using absorbed_once_within_horizon[OF a, of noLabel] ta by (simp add: count_exProps)
  from absorbed_once_within_horizon[OF d, of noLabel] td
  obtain k where k: "startTime exProps + real k * stepMs < timestamp exD"
      "timestamp exD \<le> startTime exProps + real k * stepMs + stepMs"
      "count_list (absorbed (run noLabel exProps)) (InStep k, exD) = count_list (drinks exProps) exD"
      "\<forall>j. j \<noteq> k \<longrightarrow> count_list (absorbed (run noLabel exProps)) (InStep j, exD) = 0"
    and at0: "count_list (absorbed (run noLabel exProps)) (AtStart, exD) = 0"
    by blast
  have two: "startTime exProps + real (2::nat) * stepMs < timestamp exD"
      "timestamp exD \<le> startTime exProps + real (2::nat) * stepMs + stepMs"
    by (simp_all add: startTime_exProps exD_def stepMs_val)
  have "k = 2"
    using step_index_unique[OF k(1) k(2) two] .
  then have rd: "count_list (absorbed (run noLabel exProps)) (InStep 2, exD) = 1 \<and>
      count_list (absorbed (run noLabel exProps)) (InStep 3, exD) = 0"
    using k(3) k(4) by (simp add: count_exProps)
  have c: "exC \<in> set (drinks exProps)" by (simp add: exProps_def)
  have tc: "startTime exProps + real maxSteps * stepMs < timestamp exC"
    by (simp add: startTime_exProps exC_def maxSteps_val stepMs_val)
  have "exC \<notin> snd ` set (absorbed (run noLabel exProps))"
    using absorbed_once_within_horizon[OF c, of noLabel] tc by blast
  then have "(InStep 287, exC) \<notin> set (absorbed (run noLabel exProps))" by force
  then have rc: "count_list (absorbed (run noLabel exProps)) (InStep 287, exC) = 0"
    by (simp add: count_list_0_iff)
  show ?thesis using a d ta td ra at0 rd c tc rc by simp
qed


subsection \<open>C2: peak and threshold crossing\<close>

text \<open>
  Claim C2: for a series of at least two points, \<open>peakIndexOf\<close> is the first index that
  attains the maximum \<open>bac\<close> (every point is at most the peak, every earlier point is
  strictly below it). If the peak is below 0.05 the result is \<open>StatusUnder\<close>, which
  carries no crossing time. Otherwise, if \<open>m\<close> is the first index from the peak index on
  whose \<open>bac\<close> is at most 0.05, the result is \<open>StatusOver\<close> with the time and label of
  point \<open>m\<close> and \<open>projected = False\<close>.
\<close>

theorem soberTimeInfo_peak_crossing:
  assumes "2 \<le> length ps"
  shows "peakIndexOf ps < length ps \<and>
     (\<forall>j<length ps. bac (ps ! j) \<le> bac (ps ! peakIndexOf ps)) \<and>
     (\<forall>j<peakIndexOf ps. bac (ps ! j) < bac (ps ! peakIndexOf ps)) \<and>
     (bac (ps ! peakIndexOf ps) < 0.05 \<longrightarrow>
        soberTimeInfo ps = Some (StatusUnder (bac (ps ! peakIndexOf ps)))) \<and>
     (\<forall>m. \<not> bac (ps ! peakIndexOf ps) < 0.05 \<and> peakIndexOf ps \<le> m \<and> m < length ps \<and>
          bac (ps ! m) \<le> 0.05 \<and> (\<forall>j. peakIndexOf ps \<le> j \<and> j < m \<longrightarrow> \<not> bac (ps ! j) \<le> 0.05) \<longrightarrow>
        soberTimeInfo ps =
          Some (StatusOver (bac (ps ! peakIndexOf ps)) (time (ps ! m)) (label (ps ! m)) False))"
proof -
  have ne: "ps \<noteq> []" using assms by auto
  have under: "bac (ps ! peakIndexOf ps) < 0.05 \<longrightarrow>
        soberTimeInfo ps = Some (StatusUnder (bac (ps ! peakIndexOf ps)))"
    using ne by (simp add: soberTimeInfo_def Let_def)
  have over: "\<forall>m. \<not> bac (ps ! peakIndexOf ps) < 0.05 \<and> peakIndexOf ps \<le> m \<and> m < length ps \<and>
          bac (ps ! m) \<le> 0.05 \<and> (\<forall>j. peakIndexOf ps \<le> j \<and> j < m \<longrightarrow> \<not> bac (ps ! j) \<le> 0.05) \<longrightarrow>
        soberTimeInfo ps =
          Some (StatusOver (bac (ps ! peakIndexOf ps)) (time (ps ! m)) (label (ps ! m)) False)"
  proof (intro allI impI)
    fix m
    assume h: "\<not> bac (ps ! peakIndexOf ps) < 0.05 \<and> peakIndexOf ps \<le> m \<and> m < length ps \<and>
          bac (ps ! m) \<le> 0.05 \<and> (\<forall>j. peakIndexOf ps \<le> j \<and> j < m \<longrightarrow> \<not> bac (ps ! j) \<le> 0.05)"
    then have "crossLoop ps (peakIndexOf ps) = Some m"
      using crossLoop_Some[of ps "peakIndexOf ps" m] by blast
    then show "soberTimeInfo ps =
          Some (StatusOver (bac (ps ! peakIndexOf ps)) (time (ps ! m)) (label (ps ! m)) False)"
      using ne h by (simp add: soberTimeInfo_def Let_def)
  qed
  from peakIndexOf_first_max[OF ne] under over show ?thesis by blast
qed


theorem soberTimeInfo_peak_crossing_witness:
  "2 \<le> length exSeries \<and> peakIndexOf exSeries = 1 \<and>
   \<not> bac (exSeries ! 1) < 0.05 \<and> \<not> bac (exSeries ! 2) \<le> 0.05 \<and> bac (exSeries ! 3) \<le> 0.05 \<and>
   soberTimeInfo exSeries = Some (StatusOver 0.08 1800000 [] False) \<and>
   2 \<le> length exUnder \<and> peakIndexOf exUnder = 2 \<and> bac (exUnder ! 2) < 0.05 \<and>
   soberTimeInfo exUnder = Some (StatusUnder 0.03)"
proof -
  have l: "2 \<le> length exSeries" "2 \<le> length exUnder"
    by (simp_all add: exSeries_def exUnder_def mkSeries_4 mkSeries_3)
  have v: "\<not> bac (exSeries ! 1) < 0.05" "\<not> bac (exSeries ! 2) \<le> 0.05" "bac (exSeries ! 3) \<le> 0.05"
      "bac (exSeries ! 1) = 0.08" "time (exSeries ! 3) = 1800000" "label (exSeries ! 3) = []"
    by (simp_all add: exSeries_def mkSeries_4)
  have u: "bac (exUnder ! 2) < 0.05" "bac (exUnder ! 2) = 0.03"
    by (simp_all add: exUnder_def mkSeries_3)
  have between: "\<forall>j. peakIndexOf exSeries \<le> j \<and> j < 3 \<longrightarrow> \<not> bac (exSeries ! j) \<le> 0.05"
  proof (intro allI impI)
    fix j assume "peakIndexOf exSeries \<le> j \<and> j < 3"
    then have "j = 1 \<or> j = 2" unfolding peakIndexOf_exSeries by linarith
    then show "\<not> bac (exSeries ! j) \<le> 0.05" using v by auto
  qed
  have len: "3 < length exSeries" by (simp add: exSeries_def mkSeries_4)
  have over: "soberTimeInfo exSeries =
      Some (StatusOver (bac (exSeries ! peakIndexOf exSeries)) (time (exSeries ! 3)) (label (exSeries ! 3)) False)"
    using soberTimeInfo_peak_crossing[OF l(1)] v(1,3) between len
    by (simp add: peakIndexOf_exSeries)
  have under: "soberTimeInfo exUnder = Some (StatusUnder (bac (exUnder ! peakIndexOf exUnder)))"
    using soberTimeInfo_peak_crossing[OF l(2)] u(1) by (simp add: peakIndexOf_exUnder)
  show ?thesis
    using l v u over under by (simp add: peakIndexOf_exSeries peakIndexOf_exUnder)
qed

subsection \<open>C3: the divisor of \<^verbatim>\<open>toBAC\<close>\<close>

text \<open>
  Claim C3 as stated fails: the guard is \<^verbatim>\<open>weight > 0 ? weight : 1\<close>, so a weight of half
  a kilogram is used as it is and the weight that \<open>toBAC\<close> divides by is below 1.
\<close>

theorem divisor_weight_counterexample:
  "\<not> 1 \<le> w (exProps\<lparr>weight := 1 / 2\<rparr>)"
  by (simp add: w_def exProps_def)

text \<open>
  Claim C3, amended: for every weight, the weight used by \<open>toBAC\<close> is positive (the given
  weight when that is positive, and 1 otherwise; hence at least 1 whenever the given
  weight is at least 1 or is not positive), the divisor \<open>w * r\<close> is positive, and
  \<open>toBAC\<close> is the true quotient by it: division by zero is unreachable. (In HOL a
  quotient by zero is zero, so the third conjunct would fail for a zero divisor.)
\<close>

theorem toBAC_divisor_positive:
  "0 < w p \<and> 0 < w p * r p \<and> toBAC p n * (w p * r p) = n \<and>
   (weight p \<le> 0 \<or> 1 \<le> weight p \<longrightarrow> 1 \<le> w p)"
  by (simp add: w_def r_def toBAC_def)

theorem toBAC_divisor_positive_witness:
  "(weight exProps \<le> 0 \<or> 1 \<le> weight exProps) \<and> 1 \<le> w exProps \<and>
   (weight (exProps\<lparr>weight := 0\<rparr>) \<le> 0 \<or> 1 \<le> weight (exProps\<lparr>weight := 0\<rparr>)) \<and>
   1 \<le> w (exProps\<lparr>weight := 0\<rparr>)"
  using toBAC_divisor_positive[of exProps 1] toBAC_divisor_positive[of "exProps\<lparr>weight := 0\<rparr>" 1]
  by (simp add: exProps_def)

subsection \<open>C4: no negative BAC\<close>

text \<open>
  Claim C4: when every drink of the input has a non-negative \<open>standardDrinks\<close>, every
  point of the series has \<open>bac \<ge> 0\<close>, and the running net count \<^verbatim>\<open>currentNetSD\<close> with
  which a non-empty simulation ends is not negative. The weight and the ratio used by the
  code are positive for every input, and the conditions of the claim on the burn rates
  are not needed.
\<close>

theorem points_bac_nonneg:
  assumes "\<forall>d\<in>set (drinks p). 0 \<le> standardDrinks d"
  shows "(\<forall>pt\<in>set (points fmt p). 0 \<le> bac pt) \<and> 0 \<le> currentNetSD (run fmt p)"
  using run_nonneg[OF assms, of fmt] by (simp add: points_def)

theorem points_bac_nonneg_witness:
  "0 \<le> standardDrinks exA \<and> 0 \<le> standardDrinks exB \<and> 0 \<le> standardDrinks exC \<and>
   0 \<le> standardDrinks exD \<and> drinks exProps = [exC, exD, exB, exA] \<and>
   0 \<le> bac (points noLabel exProps ! 0) \<and> 0 \<le> bac (points noLabel exProps ! 1) \<and>
   0 \<le> currentNetSD (run noLabel exProps)"
proof -
  have v: "0 \<le> standardDrinks exA" "0 \<le> standardDrinks exB" "0 \<le> standardDrinks exC"
      "0 \<le> standardDrinks exD"
    by (simp_all add: exA_def exB_def exC_def exD_def)
  have ds: "drinks exProps = [exC, exD, exB, exA]" by (simp add: exProps_def)
  have h: "\<forall>d\<in>set (drinks exProps). 0 \<le> standardDrinks d"
    using v by (simp add: ds)
  have "2 \<le> length (points noLabel exProps)"
    using length_dataPoints_run[of noLabel exProps] by (simp add: points_def ds)
  then have l: "0 < length (points noLabel exProps)" "1 < length (points noLabel exProps)"
    by linarith+
  have m: "points noLabel exProps ! 0 \<in> set (points noLabel exProps)"
      "points noLabel exProps ! 1 \<in> set (points noLabel exProps)"
    using nth_mem[OF l(1)] nth_mem[OF l(2)] by blast+
  note t = points_bac_nonneg[OF h, of noLabel]
  have "0 \<le> bac (points noLabel exProps ! 0)" "0 \<le> bac (points noLabel exProps ! 1)"
    using t m by blast+
  then show ?thesis using v ds t by blast
qed

subsection \<open>C5: the step budget\<close>

text \<open>
  Claim C5: for a non-empty input the loop counter never exceeds 288, the series has at
  most 289 points (the first point and one per pass of the loop, so at most 288 passes),
  consecutive points are exactly 10 minutes apart, and no point is later than 48 hours
  after the first drink. The loop is a total function: its termination is proved with
  the measure \<open>maxSteps - steps\<close>.
\<close>

theorem simulation_bounded:
  assumes "drinks p \<noteq> []"
  shows "steps (run fmt p) \<le> 288 \<and> length (points fmt p) \<le> 289 \<and>
     (\<forall>i. Suc i < length (points fmt p) \<longrightarrow>
        time (points fmt p ! Suc i) = time (points fmt p ! i) + 10 * 60 * 1000) \<and>
     (\<forall>pt\<in>set (points fmt p). time pt \<le> startTime p + 48 * 60 * 60 * 1000)"
proof -
  let ?ps = "dataPoints (run fmt p)"
  have e: "points fmt p = ?ps" using assms by (simp add: points_def)
  have sh: "length ?ps \<le> maxSteps + 1" "steps (run fmt p) \<le> maxSteps"
      "\<forall>i<length ?ps. time (?ps ! i) = startTime p + real i * stepMs"
    using dataPoints_run_shape[of fmt p] by blast+
  have gap: "\<forall>i. Suc i < length ?ps \<longrightarrow> time (?ps ! Suc i) = time (?ps ! i) + 10 * 60 * 1000"
    using sh(3) by (auto simp: stepMs_val algebra_simps)
  have late: "\<forall>pt\<in>set ?ps. time pt \<le> startTime p + 48 * 60 * 60 * 1000"
  proof
    fix pt assume "pt \<in> set ?ps"
    then obtain i where i: "i < length ?ps" "pt = ?ps ! i" by (auto simp: in_set_conv_nth)
    then have "real i \<le> 288" using sh(1) by (simp add: maxSteps_val)
    then show "time pt \<le> startTime p + 48 * 60 * 60 * 1000"
      using i sh(3) by (simp add: stepMs_val)
  qed
  show ?thesis unfolding e using sh(1,2) gap late by (simp add: maxSteps_val)
qed

theorem simulation_bounded_witness:
  "drinks exProps \<noteq> [] \<and> length (points noLabel exProps) \<le> 289 \<and>
   Suc 0 < length (points noLabel exProps) \<and>
   time (points noLabel exProps ! Suc 0) = time (points noLabel exProps ! 0) + 10 * 60 * 1000"
proof -
  have ne: "drinks exProps \<noteq> []" by (simp add: exProps_def)
  have "Suc 0 < length (points noLabel exProps)"
    using ne length_dataPoints_run[of noLabel exProps] by (simp add: points_def)
  then show ?thesis using ne simulation_bounded[OF ne, of noLabel] by simp
qed

subsection \<open>C6: time is strictly increasing\<close>

text \<open>
  Claim C6: for a non-empty input the \<open>time\<close> of each point is strictly less than the
  \<open>time\<close> of the next one, and the first point's \<open>time\<close> is the earliest timestamp of
  the input.
\<close>

theorem points_time_increasing:
  assumes "drinks p \<noteq> []"
  shows "(\<forall>i. Suc i < length (points fmt p) \<longrightarrow>
            time (points fmt p ! i) < time (points fmt p ! Suc i)) \<and>
         points fmt p \<noteq> [] \<and>
         time (points fmt p ! 0) = Min (timestamp ` set (drinks p))"
proof -
  let ?ps = "dataPoints (run fmt p)"
  have e: "points fmt p = ?ps" using assms by (simp add: points_def)
  have sh: "\<forall>i<length ?ps. time (?ps ! i) = startTime p + real i * stepMs"
    using dataPoints_run_shape[of fmt p] by blast
  have l: "2 \<le> length ?ps" by (rule length_dataPoints_run)
  have inc: "\<forall>i. Suc i < length ?ps \<longrightarrow> time (?ps ! i) < time (?ps ! Suc i)"
    using sh by (auto simp: stepMs_val)
  have "0 < length ?ps" using l by linarith
  then have "time (?ps ! 0) = startTime p" using sh[rule_format, of 0] by simp
  then have first: "time (?ps ! 0) = Min (timestamp ` set (drinks p))"
    using startTime_Min[OF assms] by simp
  have "?ps \<noteq> []" using l by auto
  then show ?thesis unfolding e using inc first by simp
qed

theorem points_time_increasing_witness:
  "drinks exProps \<noteq> [] \<and> Suc 0 < length (points noLabel exProps) \<and>
   time (points noLabel exProps ! 0) < time (points noLabel exProps ! Suc 0) \<and>
   time (points noLabel exProps ! 0) = 0"
proof -
  have ne: "drinks exProps \<noteq> []" by (simp add: exProps_def)
  have l: "Suc 0 < length (points noLabel exProps)"
    using ne length_dataPoints_run[of noLabel exProps] by (simp add: points_def)
  have m: "Min (timestamp ` set (drinks exProps)) = 0"
    by (simp add: exProps_def exA_def exB_def exC_def exD_def)
  note t = points_time_increasing[OF ne, of noLabel]
  have i: "time (points noLabel exProps ! 0) < time (points noLabel exProps ! Suc 0)"
    using t l by blast
  have f: "time (points noLabel exProps ! 0) = 0" using t m by simp
  show ?thesis using ne l i f by blast
qed

subsection \<open>C7: the first point of a single drink\<close>

text \<open>
  Claim C7: for an input of one drink with \<open>s\<close> standard drinks, a weight of at least 1
  and the ratio \<open>r\<close> of the given gender, the first point is at the drink's timestamp and
  its \<open>bac\<close> is exactly \<open>s / (weight * r)\<close>.
\<close>

theorem first_point_single_drink:
  assumes "drinks p = [d]" and "1 \<le> weight p"
  shows "bac (points fmt p ! 0) = standardDrinks d / (weight p * r p) \<and>
         time (points fmt p ! 0) = timestamp d"
proof -
  have e: "points fmt p = dataPoints (run fmt p)" using assms(1) by (simp add: points_def)
  have s: "sortedDrinks p = [d]" using assms(1) by (simp add: sortedDrinks_def)
  have st: "startTime p = timestamp d" by (simp add: startTime_def s)
  have i: "initialDrinks p = [d]" by (simp add: initialDrinks_def s st)
  have wp: "w p = weight p" using assms(2) by (simp add: w_def)
  have "dataPoints (run fmt p) \<noteq> []" using length_dataPoints_run[of fmt p] by auto
  then have "dataPoints (run fmt p) ! 0 = hd (dataPoints (run fmt p))" by (simp add: hd_conv_nth)
  then show ?thesis unfolding e by (simp add: hd_dataPoints_run i st toBAC_def wp)
qed

theorem first_point_single_drink_witness:
  "drinks exSingle = [exA] \<and> 1 \<le> weight exSingle \<and>
   bac (points noLabel exSingle ! 0) = standardDrinks exA / (70 * 0.55)"
proof -
  have h: "drinks exSingle = [exA]" "1 \<le> weight exSingle" by (simp_all add: exSingle_def)
  have b: "bac (points noLabel exSingle ! 0) = standardDrinks exA / (weight exSingle * r exSingle)"
    using first_point_single_drink[OF h, of noLabel] by blast
  have "weight exSingle * r exSingle = 70 * 0.55" by (simp add: exSingle_def r_def)
  then have "bac (points noLabel exSingle ! 0) = standardDrinks exA / (70 * 0.55)"
    using b by (simp only:)
  then show ?thesis using h by blast
qed

subsection \<open>C8: the projection fallback\<close>

text \<open>
  Claim C8: for a series of at least two points whose peak is at least 0.05 and in which
  no point from the peak index to the end has a \<open>bac\<close> of at most 0.05, the result is
  \<open>StatusOver\<close> with the time and label of the last point and \<open>projected = True\<close>.
\<close>

theorem soberTimeInfo_projected:
  assumes "2 \<le> length ps"
    and "0.05 \<le> bac (ps ! peakIndexOf ps)"
    and "\<forall>j. peakIndexOf ps \<le> j \<and> j < length ps \<longrightarrow> \<not> bac (ps ! j) \<le> 0.05"
  shows "soberTimeInfo ps =
     Some (StatusOver (bac (ps ! peakIndexOf ps)) (time (last ps)) (label (last ps)) True)"
proof -
  have ne: "ps \<noteq> []" using assms(1) by auto
  have c: "crossLoop ps (peakIndexOf ps) = None"
    using assms(3) crossLoop_None[of ps "peakIndexOf ps"] by blast
  have l: "ps ! (length ps - 1) = last ps" using ne by (simp add: last_conv_nth)
  show ?thesis using ne assms(2) c l by (simp add: soberTimeInfo_def Let_def)
qed

theorem soberTimeInfo_projected_witness:
  "length exProjected = 4 \<and> peakIndexOf exProjected = 1 \<and>
   0.05 \<le> bac (exProjected ! 1) \<and> \<not> bac (exProjected ! 1) \<le> 0.05 \<and>
   \<not> bac (exProjected ! 2) \<le> 0.05 \<and> \<not> bac (exProjected ! 3) \<le> 0.05 \<and>
   soberTimeInfo exProjected = Some (StatusOver 0.09 1800000 [] True)"
proof -
  have len: "length exProjected = 4" by (simp add: exProjected_def mkSeries_4)
  then have l: "2 \<le> length exProjected" by simp
  have v: "0.05 \<le> bac (exProjected ! 1)" "\<not> bac (exProjected ! 1) \<le> 0.05"
      "\<not> bac (exProjected ! 2) \<le> 0.05" "\<not> bac (exProjected ! 3) \<le> 0.05"
      "bac (exProjected ! 1) = 0.09"
    by (simp_all add: exProjected_def mkSeries_4)
  have pk: "0.05 \<le> bac (exProjected ! peakIndexOf exProjected)"
    using v(1) by (simp add: peakIndexOf_exProjected)
  have above: "\<forall>j. peakIndexOf exProjected \<le> j \<and> j < length exProjected \<longrightarrow>
      \<not> bac (exProjected ! j) \<le> 0.05"
  proof (intro allI impI)
    fix j assume "peakIndexOf exProjected \<le> j \<and> j < length exProjected"
    then have "j = 1 \<or> j = 2 \<or> j = 3"
      unfolding peakIndexOf_exProjected len by linarith
    then show "\<not> bac (exProjected ! j) \<le> 0.05"
      using v by auto
  qed
  have la: "time (last exProjected) = 1800000" "label (last exProjected) = []"
    by (simp_all add: exProjected_def mkSeries_4)
  have "soberTimeInfo exProjected =
      Some (StatusOver (bac (exProjected ! 1)) (time (last exProjected)) (label (last exProjected)) True)"
    using soberTimeInfo_projected[OF l pk above] by (simp only: peakIndexOf_exProjected)
  then have "soberTimeInfo exProjected = Some (StatusOver 0.09 1800000 [] True)"
    by (simp only: v(5) la)
  then show ?thesis using len v by (simp add: peakIndexOf_exProjected)
qed

subsection \<open>C9: \<^verbatim>\<open>updateDrinkTime\<close> changes the timestamp only\<close>

text \<open>
  Claim C9: \<open>updateDrinkTime\<close> keeps the length of the list; at every position the id,
  name, volume, abv and standard drinks are unchanged; a drink with the given id is the
  old drink with the new timestamp and any other drink is unchanged. So a list in which
  every drink's \<open>standardDrinks\<close> equals \<open>(volumeMl / 1000) * abv * 0.789\<close> stays such a
  list, and the drink that \<open>addDrink\<close> has just created with that value still has it
  after the update.
\<close>

theorem updateDrinkTime_frame:
  "length (updateDrinkTime i t ds) = length ds \<and>
   (\<forall>k<length ds.
      id_drink (updateDrinkTime i t ds ! k) = id_drink (ds ! k) \<and>
      name (updateDrinkTime i t ds ! k) = name (ds ! k) \<and>
      volumeMl (updateDrinkTime i t ds ! k) = volumeMl (ds ! k) \<and>
      abv (updateDrinkTime i t ds ! k) = abv (ds ! k) \<and>
      standardDrinks (updateDrinkTime i t ds ! k) = standardDrinks (ds ! k) \<and>
      (id_drink (ds ! k) = i \<longrightarrow> updateDrinkTime i t ds ! k = (ds ! k)\<lparr>timestamp := t\<rparr>) \<and>
      (id_drink (ds ! k) \<noteq> i \<longrightarrow> updateDrinkTime i t ds ! k = ds ! k)) \<and>
   ((\<forall>d\<in>set ds. standardDrinks d = (volumeMl d / 1000) * abv d * 0.789) \<longrightarrow>
    (\<forall>d\<in>set (updateDrinkTime i t ds). standardDrinks d = (volumeMl d / 1000) * abv d * 0.789)) \<and>
   standardDrinks (hd (updateDrinkTime i t (addDrink newId now nm vol a ts ds))) =
     (vol / 1000) * a * 0.789"
proof -
  have 1: "length (updateDrinkTime i t ds) = length ds" by (simp add: updateDrinkTime_def)
  have 2: "\<forall>k<length ds.
      id_drink (updateDrinkTime i t ds ! k) = id_drink (ds ! k) \<and>
      name (updateDrinkTime i t ds ! k) = name (ds ! k) \<and>
      volumeMl (updateDrinkTime i t ds ! k) = volumeMl (ds ! k) \<and>
      abv (updateDrinkTime i t ds ! k) = abv (ds ! k) \<and>
      standardDrinks (updateDrinkTime i t ds ! k) = standardDrinks (ds ! k) \<and>
      (id_drink (ds ! k) = i \<longrightarrow> updateDrinkTime i t ds ! k = (ds ! k)\<lparr>timestamp := t\<rparr>) \<and>
      (id_drink (ds ! k) \<noteq> i \<longrightarrow> updateDrinkTime i t ds ! k = ds ! k)"
    by (simp add: updateDrinkTime_def)
  have 3: "(\<forall>d\<in>set ds. standardDrinks d = (volumeMl d / 1000) * abv d * 0.789) \<longrightarrow>
    (\<forall>d\<in>set (updateDrinkTime i t ds). standardDrinks d = (volumeMl d / 1000) * abv d * 0.789)"
    by (auto simp: updateDrinkTime_def)
  have 4: "standardDrinks (hd (updateDrinkTime i t (addDrink newId now nm vol a ts ds))) =
     (vol / 1000) * a * 0.789"
    by (simp add: updateDrinkTime_def addDrink_def Let_def)
  from 1 2 3 4 show ?thesis by blast
qed

theorem updateDrinkTime_frame_witness:
  "(1::nat) < length [exB, exA] \<and> id_drink ([exB, exA] ! 1) = ''a'' \<and>
   updateDrinkTime ''a'' 777 [exB, exA] ! 1 = exA\<lparr>timestamp := 777\<rparr> \<and>
   (0::nat) < length [exB, exA] \<and> id_drink ([exB, exA] ! 0) \<noteq> ''a'' \<and>
   updateDrinkTime ''a'' 777 [exB, exA] ! 0 = exB \<and>
   standardDrinks exA = (volumeMl exA / 1000) * abv exA * 0.789 \<and>
   standardDrinks exB = (volumeMl exB / 1000) * abv exB * 0.789 \<and>
   standardDrinks (updateDrinkTime ''a'' 777 [exB, exA] ! 1) =
     (volumeMl (updateDrinkTime ''a'' 777 [exB, exA] ! 1) / 1000) *
       abv (updateDrinkTime ''a'' 777 [exB, exA] ! 1) * 0.789"
proof -
  have i: "id_drink ([exB, exA] ! 1) = ''a''" "id_drink ([exB, exA] ! 0) \<noteq> ''a''"
    by (simp_all add: exA_def exB_def)
  have f0: "standardDrinks exA = (volumeMl exA / 1000) * abv exA * 0.789"
      "standardDrinks exB = (volumeMl exB / 1000) * abv exB * 0.789"
    by (simp_all add: exA_def exB_def)
  then have f: "\<forall>d\<in>set [exB, exA]. standardDrinks d = (volumeMl d / 1000) * abv d * 0.789"
    by simp
  have l: "(1::nat) < length [exB, exA]" "(0::nat) < length [exB, exA]" by simp_all
  note t = updateDrinkTime_frame[of "''a''" 777 "[exB, exA]" "''n''" 0 "''x''" 0 0 None]
  have a: "updateDrinkTime ''a'' 777 [exB, exA] ! 1 = ([exB, exA] ! 1)\<lparr>timestamp := 777\<rparr>"
    using t i(1) l(1) by blast
  have b: "updateDrinkTime ''a'' 777 [exB, exA] ! 0 = [exB, exA] ! 0"
    using t i(2) l(2) by blast
  have c: "\<forall>d\<in>set (updateDrinkTime ''a'' 777 [exB, exA]).
      standardDrinks d = (volumeMl d / 1000) * abv d * 0.789"
    using t f by blast
  have "updateDrinkTime ''a'' 777 [exB, exA] ! 1 \<in> set (updateDrinkTime ''a'' 777 [exB, exA])"
    by (simp add: updateDrinkTime_def)
  then have d: "standardDrinks (updateDrinkTime ''a'' 777 [exB, exA] ! 1) =
     (volumeMl (updateDrinkTime ''a'' 777 [exB, exA] ! 1) / 1000) *
       abv (updateDrinkTime ''a'' 777 [exB, exA] ! 1) * 0.789"
    using c by blast
  have a': "updateDrinkTime ''a'' 777 [exB, exA] ! 1 = exA\<lparr>timestamp := 777\<rparr>"
    using a by simp
  have b': "updateDrinkTime ''a'' 777 [exB, exA] ! 0 = exB"
    using b by simp
  show ?thesis using i l f0 a' b' d by blast
qed

subsection \<open>C10: at least two points\<close>

text \<open>
  Claim C10: for a non-empty input the series has at least two points, so the chart and
  the analytics are shown; for an empty input the series is empty, \<open>soberTimeInfo\<close>
  returns nothing and nothing is shown.
\<close>

theorem points_at_least_two:
  "(drinks p \<noteq> [] \<longrightarrow> 2 \<le> length (points fmt p) \<and> showsChart (points fmt p)) \<and>
   (drinks p = [] \<longrightarrow> points fmt p = [] \<and> soberTimeInfo (points fmt p) = None \<and>
      \<not> showsChart (points fmt p))"
  using length_dataPoints_run[of fmt p]
  by (simp add: points_def showsChart_def soberTimeInfo_def)

theorem points_at_least_two_witness:
  "drinks exProps \<noteq> [] \<and> 2 \<le> length (points noLabel exProps) \<and>
   drinks (exProps\<lparr>drinks := []\<rparr>) = [] \<and> points noLabel (exProps\<lparr>drinks := []\<rparr>) = []"
  using points_at_least_two[of exProps noLabel] points_at_least_two[of "exProps\<lparr>drinks := []\<rparr>" noLabel]
  by (simp add: exProps_def)

end
